theory Spec2Isabelle
  imports Main "HOL-Library.Multiset"
begin

section \<open>Python strings\<close>

text \<open>
  A Python \<^verbatim>\<open>str\<close> is a sequence of Unicode code points, so a string is a list of
  code points (natural numbers). ASCII text is written through \<open>ascii\<close>; the non-ASCII
  literals of \<^verbatim>\<open>bot.py\<close> are given by their code points.
\<close>

type_synonym pychar = nat
type_synonym pystr = "pychar list"

definition ascii :: "string \<Rightarrow> pystr" where
  "ascii s = map of_char s"

text \<open>
  \<^verbatim>\<open>str.split()\<close> and the regex class \<^verbatim>\<open>\s\<close> use the same test, the code points
  for which \<^verbatim>\<open>str.isspace()\<close> holds.
\<close>

definition is_space :: "pychar \<Rightarrow> bool" where
  "is_space c \<longleftrightarrow>
     (9 \<le> c \<and> c \<le> 13) \<or> (28 \<le> c \<and> c \<le> 32) \<or> c = 133 \<or> c = 160 \<or> c = 5760 \<or>
     (8192 \<le> c \<and> c \<le> 8202) \<or> c = 8232 \<or> c = 8233 \<or> c = 8239 \<or> c = 8287 \<or> c = 12288"

text \<open>
  The regex class \<^verbatim>\<open>\w\<close> on a \<^verbatim>\<open>str\<close> pattern is "alphanumeric or underscore". On
  ASCII that is \<^verbatim>\<open>[0-9A-Za-z_]\<close>; beyond ASCII it is the Unicode database's table, which
  is not part of the repository and is taken as the parameter \<open>ua\<close>.
\<close>

definition is_word :: "(pychar \<Rightarrow> bool) \<Rightarrow> pychar \<Rightarrow> bool" where
  "is_word ua c \<longleftrightarrow>
     (if c < 128
      then (48 \<le> c \<and> c \<le> 57) \<or> (65 \<le> c \<and> c \<le> 90) \<or> c = 95 \<or> (97 \<le> c \<and> c \<le> 122)
      else ua c)"

text \<open>The regex \<^verbatim>\<open>.\<close> (no DOTALL flag): any code point but the line feed.\<close>

definition is_dot :: "pychar \<Rightarrow> bool" where
  "is_dot c \<longleftrightarrow> c \<noteq> 10"

text \<open>
  \<^verbatim>\<open>content.split()\<close>: the maximal runs of non-whitespace code points, in order. \<open>cur\<close> is
  the token being read.
\<close>

fun split_from :: "pystr \<Rightarrow> pystr \<Rightarrow> pystr list" where
  "split_from cur [] = (if cur = [] then [] else [cur])"
| "split_from cur (c # cs) =
     (if is_space c
      then (if cur = [] then split_from [] cs else cur # split_from [] cs)
      else split_from (cur @ [c]) cs)"

definition split :: "pystr \<Rightarrow> pystr list" where
  "split s = split_from [] s"

text \<open>\<^verbatim>\<open>sep.join(xs)\<close>.\<close>

fun join :: "pystr \<Rightarrow> pystr list \<Rightarrow> pystr" where
  "join sep [] = []"
| "join sep [x] = x"
| "join sep (x # y # ys) = x @ sep @ join sep (y # ys)"

text \<open>\<^verbatim>\<open>str(n)\<close> for a non-negative integer: its decimal digits.\<close>

fun str_nat :: "nat \<Rightarrow> pystr" where
  "str_nat n = (if n < 10 then [48 + n] else str_nat (n div 10) @ [48 + n mod 10])"

declare str_nat.simps [simp del]

definition str_int :: "int \<Rightarrow> pystr" where
  "str_int i = (if i < 0 then 45 # str_nat (nat (- i)) else str_nat (nat i))"

section \<open>The regular expression\<close>

text \<open>
  \<^verbatim>\<open>re.search(r"(.+?) (@\w+) - (https?://\S+)", text)\<close> is modelled by a backtracking
  matcher in continuation-passing style, one combinator for each construct of the
  pattern. A continuation receives what the construct consumed and the remaining input,
  and returns the groups of the match, or \<open>None\<close> to make the construct try its next
  alternative, as the \<^verbatim>\<open>re\<close> engine does.
\<close>

text \<open>
  \<open>x+?\<close> (lazy): after at least one \<open>x\<close>, the rest of the pattern is tried first; only
  when it fails is one more \<open>x\<close> consumed. \<open>acc\<close> is what has been consumed.
\<close>

fun lazy_plus ::
  "(pychar \<Rightarrow> bool) \<Rightarrow> pystr \<Rightarrow> pystr \<Rightarrow> (pystr \<Rightarrow> pystr \<Rightarrow> 'a option) \<Rightarrow> 'a option" where
  "lazy_plus p acc [] k = (if acc = [] then None else k acc [])"
| "lazy_plus p acc (c # cs) k =
     (case (if acc = [] then None else k acc (c # cs)) of
        Some r \<Rightarrow> Some r
      | None \<Rightarrow> if p c then lazy_plus p (acc @ [c]) cs k else None)"

text \<open>
  \<open>x+\<close> (greedy): as many \<open>x\<close> as possible are consumed first; when the rest of the
  pattern fails, one \<open>x\<close> is given back, down to a single one.
\<close>

fun greedy_plus ::
  "(pychar \<Rightarrow> bool) \<Rightarrow> pystr \<Rightarrow> pystr \<Rightarrow> (pystr \<Rightarrow> pystr \<Rightarrow> 'a option) \<Rightarrow> 'a option" where
  "greedy_plus p acc [] k = (if acc = [] then None else k acc [])"
| "greedy_plus p acc (c # cs) k =
     (case (if p c then greedy_plus p (acc @ [c]) cs k else None) of
        Some r \<Rightarrow> Some r
      | None \<Rightarrow> if acc = [] then None else k acc (c # cs))"

text \<open>A literal piece of the pattern.\<close>

definition lit :: "pystr \<Rightarrow> pystr \<Rightarrow> (pystr \<Rightarrow> 'a option) \<Rightarrow> 'a option" where
  "lit l s k = (if take (length l) s = l then k (drop (length l) s) else None)"

text \<open>\<open>c?\<close> (greedy): with the character first, then without it.\<close>

definition opt_char :: "pychar \<Rightarrow> pystr \<Rightarrow> (pystr \<Rightarrow> pystr \<Rightarrow> 'a option) \<Rightarrow> 'a option" where
  "opt_char c s k =
     (case s of
        [] \<Rightarrow> k [] s
      | x # xs \<Rightarrow>
          if x = c then (case k [c] xs of Some r \<Rightarrow> Some r | None \<Rightarrow> k [] s) else k [] s)"

text \<open>
  The pattern matched at the start of \<open>s\<close>. The result is \<^verbatim>\<open>match.groups()\<close>: the three
  groups \<^verbatim>\<open>(.+?)\<close>, \<^verbatim>\<open>(@\w+)\<close> and \<^verbatim>\<open>(https?://\S+)\<close>.
\<close>

definition match_at :: "(pychar \<Rightarrow> bool) \<Rightarrow> pystr \<Rightarrow> (pystr \<times> pystr \<times> pystr) option" where
  "match_at ua s =
     lazy_plus is_dot [] s (\<lambda>content s1.
     lit [32] s1 (\<lambda>s2.
     lit [64] s2 (\<lambda>s3.
     greedy_plus (is_word ua) [] s3 (\<lambda>name s4.
     lit [32, 45, 32] s4 (\<lambda>s5.
     lit (ascii ''http'') s5 (\<lambda>s6.
     opt_char 115 s6 (\<lambda>s_opt s7.
     lit (ascii ''://'') s7 (\<lambda>s8.
     greedy_plus (\<lambda>c. \<not> is_space c) [] s8 (\<lambda>rest s9.
       Some (content, 64 # name, ascii ''http'' @ s_opt @ ascii ''://'' @ rest))))))))))"

text \<open>\<^verbatim>\<open>re.search\<close>: the match at the leftmost position that has one.\<close>

fun re_search :: "(pychar \<Rightarrow> bool) \<Rightarrow> pystr \<Rightarrow> (pystr \<times> pystr \<times> pystr) option" where
  "re_search ua [] = match_at ua []"
| "re_search ua (c # cs) =
     (case match_at ua (c # cs) of Some r \<Rightarrow> Some r | None \<Rightarrow> re_search ua cs)"

text \<open>
  The language of the pattern, stated without reference to the matcher: a non-empty
  description free of line feeds, a space, \<open>@\<close> and a non-empty run of word characters,
  \<open>" - "\<close>, \<open>http://\<close> or \<open>https://\<close>, and a non-empty run of non-whitespace.
\<close>

definition matches_here :: "(pychar \<Rightarrow> bool) \<Rightarrow> pystr \<Rightarrow> bool" where
  "matches_here ua s \<longleftrightarrow>
     (\<exists>content name sch rest post.
        s = content @ [32] @ (64 # name) @ [32, 45, 32] @ (sch @ ascii ''://'' @ rest) @ post \<and>
        content \<noteq> [] \<and> list_all is_dot content \<and>
        name \<noteq> [] \<and> list_all (is_word ua) name \<and>
        (sch = ascii ''http'' \<or> sch = ascii ''https'') \<and>
        rest \<noteq> [] \<and> list_all (\<lambda>c. \<not> is_space c) rest)"

definition matches_pattern :: "(pychar \<Rightarrow> bool) \<Rightarrow> pystr \<Rightarrow> bool" where
  "matches_pattern ua text \<longleftrightarrow> (\<exists>pre s. text = pre @ s \<and> matches_here ua s)"

section \<open>The extractor\<close>

text \<open>
  \<^verbatim>\<open>
  def summarize_content(content):
      words = content.split()[:10]
      return " ".join(words)
  \<close>
\<close>

definition summarize_content :: "pystr \<Rightarrow> pystr" where
  "summarize_content content = join [32] (take 10 (split content))"

text \<open>
  \<^verbatim>\<open>
  def extract_tweet_info(text):
      match = re.search(r"(.+?) (@\w+) - (https?://\S+)", text)
      if match:
          content, username, link = match.groups()
          summary = summarize_content(content)
          return f"{summary} U+2014 {username} U+1F517 ({link})", content
      return None, None
  \<close>
  (the two non-ASCII characters of the format string are written by their code points,
  8212 and 128279 in decimal). The result \<open>None\<close> stands for the pair \<^verbatim>\<open>(None, None)\<close>.
\<close>

definition extract_tweet_info :: "(pychar \<Rightarrow> bool) \<Rightarrow> pystr \<Rightarrow> (pystr \<times> pystr) option" where
  "extract_tweet_info ua text =
     (case re_search ua text of
        Some (content, username, link) \<Rightarrow>
          Some (summarize_content content @ [32, 8212, 32] @ username @ [32, 128279, 32, 40]
                  @ link @ [41],
                content)
      | None \<Rightarrow> None)"

section \<open>The accumulators\<close>

text \<open>
  \<^verbatim>\<open>messages = []\<close> and \<^verbatim>\<open>word_counter = Counter()\<close> are the module's two globals. A
  \<^verbatim>\<open>Counter\<close> is a dictionary, which keeps its keys in insertion order: an association
  list with each key once, in the order the keys were first stored.
\<close>

type_synonym counter = "(pystr \<times> int) list"

record bot_state =
  messages :: "pystr list"
  word_counter :: counter

definition initial_state :: bot_state where
  "initial_state = \<lparr>messages = [], word_counter = []\<rparr>"

text \<open>\<^verbatim>\<open>counter[w]\<close>: a missing key reads as 0 (\<^verbatim>\<open>Counter.__missing__\<close>).\<close>

fun counter_get :: "counter \<Rightarrow> pystr \<Rightarrow> int" where
  "counter_get [] w = 0"
| "counter_get ((k, v) # kvs) w = (if k = w then v else counter_get kvs w)"

text \<open>\<^verbatim>\<open>counter[w] = n\<close>: an existing key keeps its place, a new key goes to the end.\<close>

fun counter_set :: "pystr \<Rightarrow> int \<Rightarrow> counter \<Rightarrow> counter" where
  "counter_set w n [] = [(w, n)]"
| "counter_set w n ((k, v) # kvs) =
     (if k = w then (k, n) # kvs else (k, v) # counter_set w n kvs)"

text \<open>\<^verbatim>\<open>word_counter[word] += 1\<close>.\<close>

definition counter_incr :: "pystr \<Rightarrow> counter \<Rightarrow> counter" where
  "counter_incr w c = counter_set w (counter_get c w + 1) c"

text \<open>
  \<^verbatim>\<open>
  def update_word_counter(content):
      common_keywords = ["AI", <3 CJK characters>, <2 CJK characters>, "ETH", "BTC", "Layer2"]
      words = content.split()
      for word in words:
          if word in common_keywords:
              word_counter[word] += 1
  \<close>
\<close>

definition common_keywords :: "pystr list" where
  "common_keywords =
     [[65, 73], [27604, 29305, 24163], [21152, 23494], [69, 84, 72], [66, 84, 67],
      [76, 97, 121, 101, 114, 50]]"

fun count_words :: "pystr list \<Rightarrow> counter \<Rightarrow> counter" where
  "count_words [] c = c"
| "count_words (word # words) c =
     count_words words (if word \<in> set common_keywords then counter_incr word c else c)"

definition update_word_counter :: "pystr \<Rightarrow> counter \<Rightarrow> counter" where
  "update_word_counter content c = count_words (split content) c"

section \<open>Handling an inbound message\<close>

text \<open>
  The configuration read from the environment at start-up, and the two fields of an
  update that \<^verbatim>\<open>handle_message\<close> uses beyond logging (the sender's name is only
  logged). The handler is registered for text messages, so an update carries a text.
\<close>

record config =
  GROUP_ID :: int
  SUMMARY_CHAT_ID :: int

record update =
  message_text :: pystr
  message_chat_id :: int

text \<open>
  \<^verbatim>\<open>
  async def handle_message(update, context):
      text = update.message.text
      ...
      chat_id = update.message.chat_id
      if chat_id == GROUP_ID:
          summary, content = extract_tweet_info(text)
          if summary:
              messages.append(summary)
              update_word_counter(content)
  \<close>
  \<^verbatim>\<open>if summary\<close> holds for a string that is not empty.
\<close>

definition handle_message :: "(pychar \<Rightarrow> bool) \<Rightarrow> config \<Rightarrow> update \<Rightarrow> bot_state \<Rightarrow> bot_state" where
  "handle_message ua cfg upd st =
     (if message_chat_id upd = GROUP_ID cfg then
        (case extract_tweet_info ua (message_text upd) of
           None \<Rightarrow> st
         | Some (summary, content) \<Rightarrow>
             if summary \<noteq> [] then
               st\<lparr>messages := messages st @ [summary],
                  word_counter := update_word_counter content (word_counter st)\<rparr>
             else st)
      else st)"

section \<open>The summarizer\<close>

text \<open>
  An exception raised by Python code: the \<^verbatim>\<open>AttributeError\<close> of an attribute read on
  \<^verbatim>\<open>None\<close>, or any other \<^verbatim>\<open>Exception\<close>, named by its message.
\<close>

datatype py_exception = AttributeError | Raised pystr

text \<open>
  The request of \<^verbatim>\<open>openai.ChatCompletion.create\<close>, and the service: it answers a
  request with the text at \<^verbatim>\<open>response["choices"][0]["message"]["content"]\<close>, or the
  call, one of these lookups or \<^verbatim>\<open>.strip()\<close> raises an exception (an instance of
  \<^verbatim>\<open>Exception\<close>, which is what \<^verbatim>\<open>generate_summary\<close> catches).
\<close>

record chat_request =
  model :: pystr
  system_content :: pystr
  user_content :: pystr

type_synonym chat_api = "chat_request \<Rightarrow> py_exception + pystr"

definition system_prompt :: pystr where
  "system_prompt =
     [20320, 26159, 19968, 20491, 23560, 26989, 30340, 26032, 32862, 25688, 35201, 21161,
      25163, 65292, 35531, 29992, 31777, 28500, 30340, 35486, 35328, 27010, 25324, 30070,
      26085, 20839, 23481, 12290]"

definition user_prompt_prefix :: pystr where
  "user_prompt_prefix =
     [35531, 28858, 20197, 19979, 20839, 23481, 29983, 25104, 19968, 20491, 32, 53, 48, 32,
      23383, 20839, 30340, 31777, 30701, 25688, 35201, 65306, 10]"

definition fallback_marker :: pystr where
  "fallback_marker = [65288, 25688, 35201, 29983, 25104, 22833, 25943, 65289]"

definition request_for :: "pystr \<Rightarrow> chat_request" where
  "request_for txt =
     \<lparr>model = ascii ''gpt-4'', system_content = system_prompt,
      user_content = user_prompt_prefix @ txt\<rparr>"

text \<open>\<^verbatim>\<open>s.strip()\<close>: leading and trailing whitespace removed.\<close>

definition strip :: "pystr \<Rightarrow> pystr" where
  "strip s = rev (dropWhile is_space (rev (dropWhile is_space s)))"

text \<open>
  \<^verbatim>\<open>
  def generate_summary(text):
      try:
          response = openai.ChatCompletion.create(model="gpt-4", messages=[...])
          summary = response["choices"][0]["message"]["content"].strip()
          return summary
      except Exception as e:
          logging.error(...)
          return <fallback marker>
  \<close>
\<close>

definition generate_summary :: "chat_api \<Rightarrow> pystr \<Rightarrow> pystr" where
  "generate_summary api txt =
     (case api (request_for txt) of
        Inr content \<Rightarrow> strip content
      | Inl e \<Rightarrow> fallback_marker)"

section \<open>The daily report\<close>

text \<open>
  \<^verbatim>\<open>"\n".join([f"{i+1}. {msg}" for i, msg in enumerate(messages)])\<close>
\<close>

definition summary_text :: "pystr list \<Rightarrow> pystr" where
  "summary_text msgs =
     join [10] (map (\<lambda>(i, msg). str_int (int i + 1) @ ascii ''. '' @ msg) (enumerate 0 msgs))"

text \<open>
  \<^verbatim>\<open>Counter.most_common(n)\<close> is \<^verbatim>\<open>heapq.nlargest(n, self.items(), key=itemgetter(1))\<close>,
  which returns what \<^verbatim>\<open>sorted(items, key=key, reverse=True)[:n]\<close> returns: the sort is
  stable, so entries with equal counts stay in the counter's own order.
\<close>

definition most_common :: "nat \<Rightarrow> counter \<Rightarrow> counter" where
  "most_common n c = take n (sort_key (\<lambda>(w, k). - k) c)"

text \<open>
  \<^verbatim>\<open>", ".join([f"{word} <mentioned> {count} <times>" for word, count in
  word_counter.most_common(3)])\<close>
\<close>

definition mentioned :: pystr where
  "mentioned = [32, 25552, 21040, 32]"

definition times_suffix :: pystr where
  "times_suffix = [32, 27425]"

definition most_common_words :: "counter \<Rightarrow> pystr" where
  "most_common_words c =
     join (ascii '', '')
       (map (\<lambda>(word, count). word @ mentioned @ str_int count @ times_suffix) (most_common 3 c))"

text \<open>
  The report, an f-string of five lines; \<open>today\<close> is
  \<^verbatim>\<open>datetime.now().strftime('%Y-%m-%d')\<close>.
\<close>

definition summary_message :: "pystr \<Rightarrow> pystr list \<Rightarrow> counter \<Rightarrow> pystr \<Rightarrow> pystr" where
  "summary_message today msgs c ai_summary =
     [128226, 32] @ today @ [32, 20170, 26085, 25688, 35201, 10, 10] @
     summary_text msgs @ [10, 10] @
     [9644, 9644, 10, 10] @
     [8226, 32, 32317, 20849, 32] @ str_int (int (length msgs)) @
     [32, 21063, 35338, 24687, 65292, 37325, 35079, 38364, 37749, 23383, 28858, 32] @
     most_common_words c @ [10, 10] @
     [128204, 32, 65, 73, 32, 32317, 32080, 58, 32] @ ai_summary"

definition no_messages_notice :: pystr where
  "no_messages_notice = [128226, 32, 20170, 26085, 28961, 26032, 35338, 24687, 12290]"

text \<open>
  What a run does to the outside world, in order: requests to the summarizer and calls of
  \<^verbatim>\<open>send_message\<close> (whether or not the call then raises).
\<close>

datatype effect = ChatCompletion chat_request | SendMessage int pystr

text \<open>
  \<^verbatim>\<open>context.bot.send_message(chat_id, text)\<close>: it returns, or raises. The scheduled job
  calls \<^verbatim>\<open>send_summary(None)\<close>, so the context may be \<open>None\<close>, and reading
  \<^verbatim>\<open>context.bot\<close> then raises \<^verbatim>\<open>AttributeError\<close>.
\<close>

type_synonym telegram_bot = "int \<Rightarrow> pystr \<Rightarrow> py_exception + unit"

text \<open>
  \<^verbatim>\<open>
  async def send_summary(context):
      if messages:
          summary_text = "\n".join(...)
          ai_summary = generate_summary(summary_text)
          total_messages = len(messages)
          most_common_words = ", ".join(...)
          summary_message = (...)
          await context.bot.send_message(chat_id=SUMMARY_CHAT_ID, text=summary_message)
          messages.clear()
          word_counter.clear()
      else:
          await context.bot.send_message(chat_id=SUMMARY_CHAT_ID, text=<notice>)
  \<close>
  The result is the exception that leaves the function, or \<open>()\<close>; with it come the
  accumulators after the run and the effects of the run. The run is taken as one step:
  no message is handled while \<^verbatim>\<open>send_message\<close> is awaited.
\<close>

definition send_summary ::
  "config \<Rightarrow> pystr \<Rightarrow> chat_api \<Rightarrow> telegram_bot option \<Rightarrow> bot_state \<Rightarrow>
     (py_exception + unit) \<times> bot_state \<times> effect list" where
  "send_summary cfg today api context st =
     (if messages st \<noteq> [] then
        (let txt = summary_text (messages st);
             ai_summary = generate_summary api txt;
             msg = summary_message today (messages st) (word_counter st) ai_summary
         in case context of
              None \<Rightarrow> (Inl AttributeError, st, [ChatCompletion (request_for txt)])
            | Some tb \<Rightarrow>
                (case tb (SUMMARY_CHAT_ID cfg) msg of
                   Inl e \<Rightarrow>
                     (Inl e, st,
                      [ChatCompletion (request_for txt), SendMessage (SUMMARY_CHAT_ID cfg) msg])
                 | Inr u \<Rightarrow>
                     (Inr (), st\<lparr>messages := [], word_counter := []\<rparr>,
                      [ChatCompletion (request_for txt), SendMessage (SUMMARY_CHAT_ID cfg) msg])))
      else
        (case context of
           None \<Rightarrow> (Inl AttributeError, st, [])
         | Some tb \<Rightarrow>
             (case tb (SUMMARY_CHAT_ID cfg) no_messages_notice of
                Inl e \<Rightarrow> (Inl e, st, [SendMessage (SUMMARY_CHAT_ID cfg) no_messages_notice])
              | Inr u \<Rightarrow> (Inr (), st, [SendMessage (SUMMARY_CHAT_ID cfg) no_messages_notice]))))"

text \<open>
  \<^verbatim>\<open>test_summary\<close>, the handler of the manual command, is \<^verbatim>\<open>await send_summary(context)\<close>.
\<close>

definition test_summary ::
  "config \<Rightarrow> pystr \<Rightarrow> chat_api \<Rightarrow> telegram_bot option \<Rightarrow> bot_state \<Rightarrow>
     (py_exception + unit) \<times> bot_state \<times> effect list" where
  "test_summary cfg today api context st = send_summary cfg today api context st"

text \<open>
  The states the accumulators can be in: they start empty, and change only through
  \<^verbatim>\<open>handle_message\<close> and \<^verbatim>\<open>send_summary\<close>, whatever the message, the day, the
  summarizer and the transport do.
\<close>

inductive reachable :: "(pychar \<Rightarrow> bool) \<Rightarrow> config \<Rightarrow> bot_state \<Rightarrow> bool"
  for ua :: "pychar \<Rightarrow> bool" and cfg :: config where
  reachable_init: "reachable ua cfg initial_state"
| reachable_message:
    "reachable ua cfg st \<Longrightarrow> reachable ua cfg (handle_message ua cfg upd st)"
| reachable_report:
    "reachable ua cfg st \<Longrightarrow> send_summary cfg today api context st = (res, st', tr) \<Longrightarrow>
     reachable ua cfg st'"

section \<open>Predicates and sample collaborators used in the statements\<close>

text \<open>Every stored count is strictly positive.\<close>

definition positive_counts :: "counter \<Rightarrow> bool" where
  "positive_counts c \<longleftrightarrow> (\<forall>(k, v) \<in> set c. 0 < v)"

text \<open>The two facts that hold of the accumulators in every state the bot can reach.\<close>

definition accumulators_ok :: "bot_state \<Rightarrow> bool" where
  "accumulators_ok st \<longleftrightarrow>
     positive_counts (word_counter st) \<and> (messages st = [] \<longrightarrow> word_counter st = [])"

text \<open>
  Concrete collaborators for the examples: a Unicode table with no alphanumeric beyond
  ASCII, a configuration, a day, a summarizer and a transport that work, and ones that
  raise.
\<close>

definition ascii_only :: "pychar \<Rightarrow> bool" where
  "ascii_only c = False"

definition sample_config :: config where
  "sample_config = \<lparr>GROUP_ID = - 1001, SUMMARY_CHAT_ID = 42\<rparr>"

definition sample_day :: pystr where
  "sample_day = ascii ''2024-05-01''"

definition working_api :: chat_api where
  "working_api r = Inr (ascii '' Markets were busy. '')"

definition failing_api :: chat_api where
  "failing_api r = Inl (Raised (ascii ''quota exceeded''))"

definition working_bot :: telegram_bot where
  "working_bot c t = Inr ()"

definition failing_bot :: telegram_bot where
  "failing_bot c t = Inl (Raised (ascii ''network down''))"

definition sample_update :: update where
  "sample_update =
     \<lparr>message_text = ascii ''Bitcoin is pumping @cryptoguy - https://x.com/abc'',
      message_chat_id = - 1001\<rparr>"

definition sample_state :: bot_state where
  "sample_state =
     \<lparr>messages = [ascii ''BTC and AI rally'' @ [32, 8212, 32] @ ascii ''@cryptoguy'' @
                    [32, 128279, 32, 40] @ ascii ''https://x.com/abc'' @ [41]],
      word_counter = [(ascii ''BTC'', 1), (ascii ''AI'', 1)]\<rparr>"

text \<open>A token: not empty, and free of whitespace.\<close>

definition is_token :: "pystr \<Rightarrow> bool" where
  "is_token w \<longleftrightarrow> w \<noteq> [] \<and> list_all (\<lambda>c. \<not> is_space c) w"

text \<open>
  The messages of a period, in arrival order, and what the extractor returns for those
  that come from the monitored group and match: the display lines are the first
  components, the raw contents the second ones.
\<close>

fun extracted :: "(pychar \<Rightarrow> bool) \<Rightarrow> config \<Rightarrow> update list \<Rightarrow> (pystr \<times> pystr) list" where
  "extracted ua cfg [] = []"
| "extracted ua cfg (u # us) =
     (if message_chat_id u = GROUP_ID cfg
      then (case extract_tweet_info ua (message_text u) of None \<Rightarrow> [] | Some r \<Rightarrow> [r])
      else []) @ extracted ua cfg us"

definition run_messages ::
  "(pychar \<Rightarrow> bool) \<Rightarrow> config \<Rightarrow> update list \<Rightarrow> bot_state \<Rightarrow> bot_state" where
  "run_messages ua cfg us st = foldl (\<lambda>s u. handle_message ua cfg u s) st us"

text \<open>The texts submitted to the summarizer in a run, read off its effects.\<close>

fun summarizer_prompts :: "effect list \<Rightarrow> pystr list" where
  "summarizer_prompts [] = []"
| "summarizer_prompts (ChatCompletion r # es) = user_content r # summarizer_prompts es"
| "summarizer_prompts (SendMessage c t # es) = summarizer_prompts es"


section \<open>The matcher finds exactly the matches of the pattern\<close>

lemma lazy_plus_sound:
  "lazy_plus p acc s k = Some r \<Longrightarrow>
   \<exists>xs t. s = xs @ t \<and> list_all p xs \<and> acc @ xs \<noteq> [] \<and> k (acc @ xs) t = Some r"
proof (induction s arbitrary: acc)
  case Nil
  then show ?case by (auto split: if_splits)
next
  case (Cons c cs)
  show ?case
  proof (cases "acc \<noteq> [] \<and> k acc (c # cs) = Some r")
    case True
    then have "c # cs = [] @ (c # cs) \<and> list_all p [] \<and> acc @ [] \<noteq> [] \<and> k (acc @ []) (c # cs) = Some r"
      by simp
    then show ?thesis by blast
  next
    case False
    with Cons.prems have pc: "p c" and rec: "lazy_plus p (acc @ [c]) cs k = Some r"
      by (auto split: if_splits option.splits)
    from Cons.IH [OF rec] obtain xs t where
      "cs = xs @ t" "list_all p xs" "k ((acc @ [c]) @ xs) t = Some r"
      by blast
    with pc have "c # cs = (c # xs) @ t \<and> list_all p (c # xs) \<and> acc @ (c # xs) \<noteq> []
        \<and> k (acc @ (c # xs)) t = Some r"
      by simp
    then show ?thesis by blast
  qed
qed

lemma lazy_plus_complete:
  "list_all p xs \<Longrightarrow> acc @ xs \<noteq> [] \<Longrightarrow> k (acc @ xs) t \<noteq> None \<Longrightarrow>
   lazy_plus p acc (xs @ t) k \<noteq> None"
proof (induction xs arbitrary: acc)
  case Nil
  then show ?case by (cases t) auto
next
  case (Cons x xs)
  from Cons.prems have "list_all p xs" "(acc @ [x]) @ xs \<noteq> []" "k ((acc @ [x]) @ xs) t \<noteq> None"
    by simp_all
  from Cons.IH [OF this] have "lazy_plus p (acc @ [x]) (xs @ t) k \<noteq> None" .
  with Cons.prems(1) show ?case
    by (auto split: option.splits)
qed

lemma greedy_plus_sound:
  "greedy_plus p acc s k = Some r \<Longrightarrow>
   \<exists>xs t. s = xs @ t \<and> list_all p xs \<and> acc @ xs \<noteq> [] \<and> k (acc @ xs) t = Some r"
proof (induction s arbitrary: acc)
  case Nil
  then show ?case by (auto split: if_splits)
next
  case (Cons c cs)
  show ?case
  proof (cases "p c \<and> greedy_plus p (acc @ [c]) cs k = Some r")
    case True
    then have pc: "p c" and rec: "greedy_plus p (acc @ [c]) cs k = Some r"
      by simp_all
    from Cons.IH [OF rec] obtain xs t where
      "cs = xs @ t" "list_all p xs" "k ((acc @ [c]) @ xs) t = Some r"
      by blast
    with pc have "c # cs = (c # xs) @ t \<and> list_all p (c # xs) \<and> acc @ (c # xs) \<noteq> []
        \<and> k (acc @ (c # xs)) t = Some r"
      by simp
    then show ?thesis by blast
  next
    case False
    with Cons.prems have "acc \<noteq> []" "k acc (c # cs) = Some r"
      by (auto split: if_splits option.splits)
    then have "c # cs = [] @ (c # cs) \<and> list_all p [] \<and> acc @ [] \<noteq> [] \<and> k (acc @ []) (c # cs) = Some r"
      by simp
    then show ?thesis by blast
  qed
qed

lemma greedy_plus_complete:
  "list_all p xs \<Longrightarrow> acc @ xs \<noteq> [] \<Longrightarrow> k (acc @ xs) t \<noteq> None \<Longrightarrow>
   greedy_plus p acc (xs @ t) k \<noteq> None"
proof (induction xs arbitrary: acc)
  case Nil
  then show ?case by (cases t) (auto split: option.splits)
next
  case (Cons x xs)
  from Cons.prems have "list_all p xs" "(acc @ [x]) @ xs \<noteq> []" "k ((acc @ [x]) @ xs) t \<noteq> None"
    by simp_all
  from Cons.IH [OF this] have "greedy_plus p (acc @ [x]) (xs @ t) k \<noteq> None" .
  with Cons.prems(1) show ?case
    by (auto split: option.splits)
qed

lemma lit_append: "lit l (l @ t) k = k t"
  by (simp add: lit_def)

lemma lit_Some: "lit l s k = Some r \<longleftrightarrow> (\<exists>t. s = l @ t \<and> k t = Some r)"
proof
  assume "lit l s k = Some r"
  then have "take (length l) s = l" "k (drop (length l) s) = Some r"
    by (auto simp: lit_def split: if_splits)
  then have "s = l @ drop (length l) s \<and> k (drop (length l) s) = Some r"
    by (metis append_take_drop_id)
  then show "\<exists>t. s = l @ t \<and> k t = Some r" by blast
next
  assume "\<exists>t. s = l @ t \<and> k t = Some r"
  then show "lit l s k = Some r" by (auto simp: lit_def)
qed

lemma opt_char_sound:
  "opt_char c s k = Some r \<Longrightarrow> (\<exists>t. s = c # t \<and> k [c] t = Some r) \<or> k [] s = Some r"
  by (auto simp: opt_char_def split: list.splits if_splits option.splits)

lemma opt_char_complete:
  "k [] s \<noteq> None \<Longrightarrow> opt_char c s k \<noteq> None"
  by (auto simp: opt_char_def split: list.splits option.splits)

lemma opt_char_complete_Cons:
  "k [c] t \<noteq> None \<Longrightarrow> opt_char c (c # t) k \<noteq> None"
  by (auto simp: opt_char_def split: list.splits option.splits)

lemma match_at_sound:
  assumes "match_at ua s = Some (g1, g2, g3)"
  shows "\<exists>name sch rest post.
           g2 = 64 # name \<and> g3 = sch @ ascii ''://'' @ rest \<and>
           s = g1 @ [32] @ g2 @ [32, 45, 32] @ g3 @ post \<and>
           g1 \<noteq> [] \<and> list_all is_dot g1 \<and> name \<noteq> [] \<and> list_all (is_word ua) name \<and>
           (sch = ascii ''http'' \<or> sch = ascii ''https'') \<and>
           rest \<noteq> [] \<and> list_all (\<lambda>c. \<not> is_space c) rest"
proof -
  define k9 where "k9 = (\<lambda>(content::pystr) (name::pystr) s_opt rest (s9::pystr).
       Some (content, 64 # name, ascii ''http'' @ s_opt @ ascii ''://'' @ rest))"
  define k8 where "k8 = (\<lambda>content name s_opt s8.
     greedy_plus (\<lambda>c. \<not> is_space c) [] s8 (k9 content name s_opt))"
  define k6 where "k6 = (\<lambda>content name s6.
     opt_char 115 s6 (\<lambda>s_opt s7. lit (ascii ''://'') s7 (k8 content name s_opt)))"
  define k3 where "k3 = (\<lambda>content s3.
     greedy_plus (is_word ua) [] s3 (\<lambda>name s4.
       lit [32, 45, 32] s4 (\<lambda>s5. lit (ascii ''http'') s5 (k6 content name))))"
  define k1 where "k1 = (\<lambda>content s1. lit [32] s1 (\<lambda>s2. lit [64] s2 (k3 content)))"
  define G where "G = (g1, g2, g3)"
  have "match_at ua s = lazy_plus is_dot [] s k1"
    by (simp add: match_at_def k1_def k3_def k6_def k8_def k9_def)
  with assms have "lazy_plus is_dot [] s k1 = Some G"
    by (simp add: G_def)
  from lazy_plus_sound [OF this] obtain content s1 where
    c: "s = content @ s1" "list_all is_dot content" "content \<noteq> []"
    and k1: "k1 content s1 = Some G"
    by auto
  from k1 obtain s3 where s3: "s1 = [32] @ [64] @ s3" and k3: "k3 content s3 = Some G"
    unfolding k1_def lit_Some by auto
  from greedy_plus_sound [OF k3 [unfolded k3_def]] obtain name s4 where
    n: "s3 = name @ s4" "list_all (is_word ua) name" "name \<noteq> []"
    and k4: "lit [32, 45, 32] s4 (\<lambda>s5. lit (ascii ''http'') s5 (k6 content name)) = Some G"
    by auto
  from k4 obtain s6 where s6: "s4 = [32, 45, 32] @ ascii ''http'' @ s6"
    and k6: "k6 content name s6 = Some G"
    unfolding lit_Some by auto
  have "\<exists>s_opt s7. s6 = s_opt @ s7 \<and> (s_opt = [] \<or> s_opt = [115]) \<and>
          lit (ascii ''://'') s7 (k8 content name s_opt) = Some G"
    using opt_char_sound [OF k6 [unfolded k6_def]]
  proof (elim disjE exE conjE)
    fix t
    assume "s6 = 115 # t" "lit (ascii ''://'') t (k8 content name [115]) = Some G"
    then show ?thesis
      by (intro exI [of _ "[115]"] exI [of _ t]) simp
  next
    assume "lit (ascii ''://'') s6 (k8 content name []) = Some G"
    then show ?thesis
      by (intro exI [of _ "[]"] exI [of _ s6]) simp
  qed
  then obtain s_opt s7 where o: "s6 = s_opt @ s7" "s_opt = [] \<or> s_opt = [115]"
    and k7: "lit (ascii ''://'') s7 (k8 content name s_opt) = Some G"
    by (elim exE conjE)
  from k7 obtain s8 where s8: "s7 = ascii ''://'' @ s8"
    and k8: "k8 content name s_opt s8 = Some G"
    unfolding lit_Some by (elim exE conjE)
  from greedy_plus_sound [OF k8 [unfolded k8_def]] obtain rest s9 where
    r: "s8 = rest @ s9" "list_all (\<lambda>c. \<not> is_space c) rest" "rest \<noteq> []"
    and k9: "k9 content name s_opt rest s9 = Some G"
    by auto
  from k9 have g: "g1 = content" "g2 = 64 # name"
      "g3 = (ascii ''http'' @ s_opt) @ ascii ''://'' @ rest"
    by (simp_all add: k9_def G_def)
  have sch: "ascii ''http'' @ s_opt = ascii ''http'' \<or> ascii ''http'' @ s_opt = ascii ''https''"
    using o(2) by (auto simp: ascii_def)
  have s: "s = g1 @ [32] @ g2 @ [32, 45, 32] @ g3 @ s9"
    by (simp add: c(1) s3 n(1) s6 o(1) s8 r(1) g)
  show ?thesis
    apply (rule exI [of _ name])
    apply (rule exI [of _ "ascii ''http'' @ s_opt"])
    apply (rule exI [of _ rest])
    apply (rule exI [of _ s9])
    apply (intro conjI)
             apply (rule g(2))
            apply (rule g(3))
           apply (rule s)
          apply (simp add: g(1) c(3))
         apply (simp add: g(1) c(2))
        apply (rule n(3))
       apply (rule n(2))
      apply (rule sch)
     apply (rule r(3))
    apply (rule r(2))
    done
qed

lemma match_at_complete:
  assumes "matches_here ua s"
  shows "match_at ua s \<noteq> None"
proof -
  from assms obtain content name sch rest post where
    s: "s = content @ [32] @ (64 # name) @ [32, 45, 32] @ (sch @ ascii ''://'' @ rest) @ post"
    and c: "content \<noteq> []" "list_all is_dot content"
    and n: "name \<noteq> []" "list_all (is_word ua) name"
    and sch: "sch = ascii ''http'' \<or> sch = ascii ''https''"
    and r: "rest \<noteq> []" "list_all (\<lambda>c. \<not> is_space c) rest"
    unfolding matches_here_def by blast
  define k8 where "k8 = (\<lambda>(content::pystr) (name::pystr) s_opt s8.
     greedy_plus (\<lambda>c. \<not> is_space c) [] s8 (\<lambda>rest (s9::pystr).
       Some (content, 64 # name, ascii ''http'' @ s_opt @ ascii ''://'' @ rest)))"
  define k6 where "k6 = (\<lambda>content name s6.
     opt_char 115 s6 (\<lambda>s_opt s7. lit (ascii ''://'') s7 (k8 content name s_opt)))"
  define k3 where "k3 = (\<lambda>content s3.
     greedy_plus (is_word ua) [] s3 (\<lambda>name s4.
       lit [32, 45, 32] s4 (\<lambda>s5. lit (ascii ''http'') s5 (k6 content name))))"
  define k1 where "k1 = (\<lambda>content s1. lit [32] s1 (\<lambda>s2. lit [64] s2 (k3 content)))"
  have m: "match_at ua s = lazy_plus is_dot [] s k1"
    by (simp add: match_at_def k1_def k3_def k6_def k8_def)
  have r8: "k8 content name s_opt (rest @ post) \<noteq> None" for s_opt
    unfolding k8_def by (rule greedy_plus_complete) (use r in simp_all)
  have r6: "k6 content name (t @ ascii ''://'' @ rest @ post) \<noteq> None"
    if "t = [] \<or> t = [115]" for t
  proof -
    from that show ?thesis
    proof
      assume "t = []"
      then show ?thesis
        unfolding k6_def by (intro opt_char_complete) (simp add: lit_append r8)
    next
      assume t: "t = [115]"
      have "lit (ascii ''://'') (ascii ''://'' @ rest @ post) (k8 content name [115]) \<noteq> None"
        by (simp only: lit_append) (rule r8)
      then have "opt_char 115 (115 # ascii ''://'' @ rest @ post)
          (\<lambda>s_opt s7. lit (ascii ''://'') s7 (k8 content name s_opt)) \<noteq> None"
        by (rule opt_char_complete_Cons)
      then show ?thesis
        unfolding k6_def t by simp
    qed
  qed
  obtain t where t: "sch = ascii ''http'' @ t" "t = [] \<or> t = [115]"
    using sch by (auto simp: ascii_def)
  define t4 where "t4 = [32, 45, 32] @ ascii ''http'' @ t @ ascii ''://'' @ rest @ post"
  have k4: "lit [32, 45, 32] t4 (\<lambda>s5. lit (ascii ''http'') s5 (k6 content name)) \<noteq> None"
    unfolding t4_def by (simp only: lit_append) (rule r6 [OF t(2)])
  have r3: "k3 content (name @ t4) \<noteq> None"
    unfolding k3_def by (rule greedy_plus_complete) (use n k4 in simp_all)
  have k1: "k1 content ([32] @ [64] @ name @ t4) \<noteq> None"
    unfolding k1_def by (simp only: lit_append r3 not_False_eq_True)
  have s': "s = content @ [32] @ [64] @ name @ t4"
    by (simp add: s t(1) t4_def)
  have "lazy_plus is_dot [] s k1 \<noteq> None"
    unfolding s' by (rule lazy_plus_complete) (use c k1 in simp_all)
  then show ?thesis
    unfolding m .
qed

lemma re_search_sound:
  "re_search ua inp = Some r \<Longrightarrow> \<exists>pre s. inp = pre @ s \<and> match_at ua s = Some r"
proof (induction inp)
  case Nil
  then show ?case
    by (intro exI [of _ "[]"]) simp
next
  case (Cons c cs)
  show ?case
  proof (cases "match_at ua (c # cs)")
    case None
    with Cons.prems have "re_search ua cs = Some r"
      by simp
    from Cons.IH [OF this] obtain pre s where ps: "cs = pre @ s" "match_at ua s = Some r"
      by (elim exE conjE)
    show ?thesis
      by (rule exI [of _ "c # pre"], rule exI [of _ s]) (simp add: ps)
  next
    case (Some a)
    with Cons.prems show ?thesis
      by (intro exI [of _ "[]"] exI [of _ "c # cs"]) simp
  qed
qed

lemma re_search_complete:
  "match_at ua s \<noteq> None \<Longrightarrow> re_search ua (pre @ s) \<noteq> None"
proof (induction pre)
  case Nil
  show ?case
  proof (cases s)
    case Nil
    with Nil.prems show ?thesis by simp
  next
    case (Cons a list)
    with Nil.prems obtain r where "match_at ua (a # list) = Some r"
      by blast
    with Cons show ?thesis by simp
  qed
next
  case (Cons c cs)
  then have "re_search ua (cs @ s) \<noteq> None"
    by blast
  then show ?case
    by (cases "match_at ua (c # cs @ s)") simp_all
qed

lemma re_search_None_iff: "re_search ua inp = None \<longleftrightarrow> \<not> matches_pattern ua inp"
proof
  assume none: "re_search ua inp = None"
  show "\<not> matches_pattern ua inp"
  proof
    assume "matches_pattern ua inp"
    then obtain pre s where "inp = pre @ s" "matches_here ua s"
      unfolding matches_pattern_def by blast
    then have "re_search ua inp \<noteq> None"
      using match_at_complete [of ua s] re_search_complete [of ua s pre] by simp
    with none show False by simp
  qed
next
  assume nm: "\<not> matches_pattern ua inp"
  show "re_search ua inp = None"
  proof (rule ccontr)
    assume "re_search ua inp \<noteq> None"
    then obtain r where "re_search ua inp = Some r"
      by blast
    moreover obtain g1 g2 g3 where "r = (g1, g2, g3)"
      by (rule prod_cases3)
    ultimately have "re_search ua inp = Some (g1, g2, g3)"
      by blast
    from re_search_sound [OF this] obtain pre s where
      t: "inp = pre @ s" and "match_at ua s = Some (g1, g2, g3)"
      by blast
    from match_at_sound [OF this(2)] obtain name sch rest post where
      "g2 = 64 # name" "g3 = sch @ ascii ''://'' @ rest"
      "s = g1 @ [32] @ g2 @ [32, 45, 32] @ g3 @ post"
      "g1 \<noteq> []" "list_all is_dot g1" "name \<noteq> []" "list_all (is_word ua) name"
      "sch = ascii ''http'' \<or> sch = ascii ''https''"
      "rest \<noteq> []" "list_all (\<lambda>c. \<not> is_space c) rest"
      by (elim exE conjE)
    then have "matches_here ua s"
      unfolding matches_here_def
      by (intro exI [of _ g1] exI [of _ name] exI [of _ sch] exI [of _ rest] exI [of _ post])
        simp
    with t nm show False
      unfolding matches_pattern_def by blast
  qed
qed

section \<open>Counting keywords, and what every reachable state satisfies\<close>

lemma counter_get_set:
  "counter_get (counter_set w n c) k = (if k = w then n else counter_get c k)"
  by (induction c) auto

lemma counter_get_incr:
  "counter_get (counter_incr w c) k = (if k = w then counter_get c w + 1 else counter_get c k)"
  by (simp add: counter_incr_def counter_get_set)

lemma count_words_get:
  "counter_get (count_words ws c) k =
     counter_get c k + (if k \<in> set common_keywords then int (count_list ws k) else 0)"
proof (induction ws arbitrary: c)
  case Nil
  then show ?case by simp
next
  case (Cons w ws)
  then show ?case by (auto simp: counter_get_incr)
qed

lemma count_words_no_keyword:
  "set ws \<inter> set common_keywords = {} \<Longrightarrow> count_words ws c = c"
  by (induction ws arbitrary: c) auto

lemma split_Nil: "split [] = []"
  by (simp add: split_def)

lemma counter_get_nonneg: "positive_counts c \<Longrightarrow> 0 \<le> counter_get c w"
  by (induction c) (auto simp: positive_counts_def)

lemma positive_counter_set:
  "positive_counts c \<Longrightarrow> 0 < n \<Longrightarrow> positive_counts (counter_set w n c)"
  by (induction c) (auto simp: positive_counts_def split: if_splits)

lemma positive_counter_incr: "positive_counts c \<Longrightarrow> positive_counts (counter_incr w c)"
  unfolding counter_incr_def
  using counter_get_nonneg [of c w] by (intro positive_counter_set) simp_all

lemma positive_count_words: "positive_counts c \<Longrightarrow> positive_counts (count_words ws c)"
  by (induction ws arbitrary: c) (simp_all add: positive_counter_incr)

lemma positive_update_word_counter:
  "positive_counts c \<Longrightarrow> positive_counts (update_word_counter content c)"
  by (simp add: update_word_counter_def positive_count_words)

lemma handle_message_cases:
  "handle_message ua cfg upd st = st \<or>
   (\<exists>summary content.
      handle_message ua cfg upd st =
        st\<lparr>messages := messages st @ [summary],
           word_counter := update_word_counter content (word_counter st)\<rparr>)"
proof (cases "extract_tweet_info ua (message_text upd)")
  case None
  then show ?thesis by (simp add: handle_message_def)
next
  case (Some r)
  obtain summary content where r: "r = (summary, content)"
    by (cases r)
  show ?thesis
  proof (cases "message_chat_id upd = GROUP_ID cfg \<and> summary \<noteq> []")
    case True
    with Some r have "handle_message ua cfg upd st =
        st\<lparr>messages := messages st @ [summary],
           word_counter := update_word_counter content (word_counter st)\<rparr>"
      by (simp add: handle_message_def)
    then show ?thesis by blast
  next
    case False
    with Some r show ?thesis by (auto simp: handle_message_def)
  qed
qed

lemma send_summary_state:
  "send_summary cfg today api context st = (res, st', tr) \<Longrightarrow>
   st' = st \<or> st' = st\<lparr>messages := [], word_counter := []\<rparr>"
  unfolding send_summary_def Let_def
  by (auto split: if_splits option.splits sum.splits)

lemma accumulators_ok_reachable: "reachable ua cfg st \<Longrightarrow> accumulators_ok st"
proof (induction rule: reachable.induct)
  case reachable_init
  show ?case
    by (simp add: accumulators_ok_def initial_state_def positive_counts_def)
next
  case (reachable_message st upd)
  from handle_message_cases [of ua cfg upd st] show ?case
  proof (elim disjE exE)
    assume "handle_message ua cfg upd st = st"
    with reachable_message.IH show ?thesis by simp
  next
    fix summary content
    assume "handle_message ua cfg upd st =
        st\<lparr>messages := messages st @ [summary],
           word_counter := update_word_counter content (word_counter st)\<rparr>"
    with reachable_message.IH show ?thesis
      by (simp add: accumulators_ok_def positive_update_word_counter)
  qed
next
  case (reachable_report st today api ctx res st' tr)
  from send_summary_state [OF reachable_report.hyps(2)] reachable_report.IH show ?case
    by (auto simp: accumulators_ok_def positive_counts_def)
qed


section \<open>The report run\<close>

lemmas eval_defs = extract_tweet_info_def match_at_def lit_def opt_char_def ascii_def
  is_dot_def is_word_def is_space_def summarize_content_def split_def

lemma sample_state_eq:
  "handle_message ascii_only sample_config
     \<lparr>message_text = ascii ''BTC and AI rally @cryptoguy - https://x.com/abc'',
      message_chat_id = - 1001\<rparr> initial_state = sample_state"
  by (simp add: handle_message_def sample_config_def sample_state_def initial_state_def
      update_word_counter_def common_keywords_def counter_incr_def eval_defs)

lemma reachable_sample_state: "reachable ascii_only sample_config sample_state"
  using reachable_message [OF reachable_init, of ascii_only sample_config] sample_state_eq
  by metis

text \<open>
  Claim C1. When the digest is not empty and \<^verbatim>\<open>send_message\<close> raises on the final
  report, \<^verbatim>\<open>send_summary\<close> propagates that exception and the accumulators are
  exactly what they were before the call: the two \<^verbatim>\<open>clear()\<close> calls are not reached.
\<close>

theorem send_summary_failed_dispatch_keeps_state:
  assumes "messages st \<noteq> []"
    and "tb (SUMMARY_CHAT_ID cfg)
           (summary_message today (messages st) (word_counter st)
              (generate_summary api (summary_text (messages st)))) = Inl e"
  shows "fst (send_summary cfg today api (Some tb) st) = Inl e \<and>
         fst (snd (send_summary cfg today api (Some tb) st)) = st"
  using assms by (simp add: send_summary_def Let_def)

theorem send_summary_failed_dispatch_keeps_state_witness:
  "messages sample_state \<noteq> [] \<and>
   fst (send_summary sample_config sample_day working_api (Some failing_bot) sample_state)
     = Inl (Raised (ascii ''network down'')) \<and>
   fst (snd (send_summary sample_config sample_day working_api (Some failing_bot) sample_state))
     = sample_state"
proof -
  have h1: "messages sample_state \<noteq> []"
    by (simp add: sample_state_def)
  have h2: "failing_bot (SUMMARY_CHAT_ID sample_config)
           (summary_message sample_day (messages sample_state) (word_counter sample_state)
              (generate_summary working_api (summary_text (messages sample_state))))
         = Inl (Raised (ascii ''network down''))"
    by (simp add: failing_bot_def)
  show ?thesis
    using h1 send_summary_failed_dispatch_keeps_state
      [where st = sample_state and tb = failing_bot and cfg = sample_config
         and today = sample_day and api = working_api, OF h1 h2]
    by simp
qed



text \<open>
  Claim C5. With no message stored, a report run is to send the fixed notice and not
  raise, each time it is called. The scheduled job calls \<^verbatim>\<open>send_summary(None)\<close>; the
  run then raises \<^verbatim>\<open>AttributeError\<close> at \<^verbatim>\<open>context.bot\<close> before anything is sent, the
  first time and the second: no notice is dispatched.
\<close>

theorem scheduled_empty_report_raises:
  "send_summary cfg today api None initial_state = (Inl AttributeError, initial_state, []) \<and>
   send_summary cfg today' api' None
       (fst (snd (send_summary cfg today api None initial_state))) =
     (Inl AttributeError, initial_state, [])"
  by (simp add: send_summary_def initial_state_def)

text \<open>
  The manual command does what the claim says. Called with the handler's context while
  no message is stored, the run calls \<^verbatim>\<open>send_message\<close> once, with the fixed notice,
  makes no request to the summarizer, leaves the accumulators as they are, and ends as
  that call ends; a second run right after the first does the same, and neither raises
  when the notice is delivered.
\<close>

lemma manual_empty_report_idempotent:
  assumes "messages st = []"
  shows "test_summary cfg today api (Some tb) st =
           (tb (SUMMARY_CHAT_ID cfg) no_messages_notice, st,
            [SendMessage (SUMMARY_CHAT_ID cfg) no_messages_notice]) \<and>
         test_summary cfg today' api' (Some tb)
             (fst (snd (test_summary cfg today api (Some tb) st))) =
           test_summary cfg today api (Some tb) st \<and>
         (tb (SUMMARY_CHAT_ID cfg) no_messages_notice = Inr () \<longrightarrow>
            fst (test_summary cfg today api (Some tb) st) = Inr ())"
proof -
  have 1: "test_summary cfg today api (Some tb) st =
           (tb (SUMMARY_CHAT_ID cfg) no_messages_notice, st,
            [SendMessage (SUMMARY_CHAT_ID cfg) no_messages_notice])" for today api
    using assms
    by (cases "tb (SUMMARY_CHAT_ID cfg) no_messages_notice")
      (simp_all add: test_summary_def send_summary_def)
  show ?thesis
    by (simp add: 1)
qed

lemma manual_empty_report_example:
  "test_summary sample_config sample_day failing_api (Some working_bot) initial_state =
     (Inr (), initial_state, [SendMessage 42 no_messages_notice]) \<and>
   test_summary sample_config sample_day failing_api (Some working_bot)
       (fst (snd (test_summary sample_config sample_day failing_api (Some working_bot)
          initial_state))) =
     (Inr (), initial_state, [SendMessage 42 no_messages_notice])"
proof -
  have h: "messages initial_state = []"
    by (simp add: initial_state_def)
  show ?thesis
    using manual_empty_report_idempotent
      [where st = initial_state and cfg = sample_config and today = sample_day
         and api = failing_api and tb = working_bot and today' = sample_day
         and api' = failing_api, OF h]
    by (simp add: working_bot_def sample_config_def)
qed

text \<open>
  Claim C6. When the request to the summarizer raises an exception, \<^verbatim>\<open>generate_summary\<close>
  returns the fixed fallback marker; and a report run whose request fails goes on: after
  the request it calls \<^verbatim>\<open>send_message\<close> with the report composed around the marker
  (the report ends with it), and ends as that call ends.
\<close>

theorem summarizer_failure_never_aborts:
  "(api (request_for s) = Inl e \<longrightarrow> generate_summary api s = fallback_marker) \<and>
   (messages st \<noteq> [] \<and> api (request_for (summary_text (messages st))) = Inl e' \<longrightarrow>
      snd (snd (send_summary cfg today api (Some tb) st)) =
        [ChatCompletion (request_for (summary_text (messages st))),
         SendMessage (SUMMARY_CHAT_ID cfg)
           (summary_message today (messages st) (word_counter st) fallback_marker)] \<and>
      fst (send_summary cfg today api (Some tb) st) =
        tb (SUMMARY_CHAT_ID cfg)
           (summary_message today (messages st) (word_counter st) fallback_marker) \<and>
      (\<exists>pre. summary_message today (messages st) (word_counter st) fallback_marker
          = pre @ fallback_marker))"
proof (intro conjI impI)
  assume "api (request_for s) = Inl e"
  then show "generate_summary api s = fallback_marker"
    by (simp add: generate_summary_def)
next
  assume a: "messages st \<noteq> [] \<and> api (request_for (summary_text (messages st))) = Inl e'"
  then have g: "generate_summary api (summary_text (messages st)) = fallback_marker"
    by (simp add: generate_summary_def)
  show "snd (snd (send_summary cfg today api (Some tb) st)) =
        [ChatCompletion (request_for (summary_text (messages st))),
         SendMessage (SUMMARY_CHAT_ID cfg)
           (summary_message today (messages st) (word_counter st) fallback_marker)]"
    using a by (simp add: send_summary_def Let_def g split: sum.splits)
  show "fst (send_summary cfg today api (Some tb) st) =
        tb (SUMMARY_CHAT_ID cfg)
           (summary_message today (messages st) (word_counter st) fallback_marker)"
    using a by (simp add: send_summary_def Let_def g split: sum.splits)
  show "\<exists>pre. summary_message today (messages st) (word_counter st) fallback_marker
          = pre @ fallback_marker"
    unfolding summary_message_def
    by (metis append.assoc)
qed

theorem summarizer_failure_never_aborts_witness:
  "failing_api (request_for (ascii ''anything'')) = Inl (Raised (ascii ''quota exceeded'')) \<and>
   generate_summary failing_api (ascii ''anything'') = fallback_marker \<and>
   messages sample_state \<noteq> [] \<and>
   fst (send_summary sample_config sample_day failing_api (Some working_bot) sample_state)
     = Inr () \<and>
   snd (snd (send_summary sample_config sample_day failing_api (Some working_bot) sample_state))
     = [ChatCompletion (request_for (summary_text (messages sample_state))),
        SendMessage 42
          (summary_message sample_day (messages sample_state) (word_counter sample_state)
             fallback_marker)]"
proof -
  have h1: "failing_api (request_for s) = Inl (Raised (ascii ''quota exceeded''))" for s
    by (simp add: failing_api_def)
  have h2: "messages sample_state \<noteq> []"
    by (simp add: sample_state_def)
  show ?thesis
    using h1 h2 summarizer_failure_never_aborts
      [where api = failing_api and s = "ascii ''anything''" and st = sample_state
         and cfg = sample_config and today = sample_day and tb = working_bot
         and e = "Raised (ascii ''quota exceeded'')" and e' = "Raised (ascii ''quota exceeded'')"]
    by (simp add: working_bot_def sample_config_def)
qed

section \<open>The keyword counter\<close>

text \<open>
  Claim C9. \<^verbatim>\<open>update_word_counter\<close> raises the count of a keyword of the vocabulary by
  the number of whitespace-separated tokens of the content equal to it, and leaves every
  other count as it was; content without a token of the vocabulary, and empty content,
  leave the counter unchanged; \<^verbatim>\<open>"BTC to the moon BTC"\<close> raises the count of BTC by 2.
\<close>

theorem update_word_counter_counts:
  "counter_get (update_word_counter content c) k =
     counter_get c k +
       (if k \<in> set common_keywords then int (count_list (split content) k) else 0) \<and>
   (set (split content) \<inter> set common_keywords = {} \<longrightarrow> update_word_counter content c = c) \<and>
   update_word_counter [] c = c \<and>
   counter_get (update_word_counter (ascii ''BTC to the moon BTC'') c) (ascii ''BTC'') =
     counter_get c (ascii ''BTC'') + 2"
proof (intro conjI impI)
  show "counter_get (update_word_counter content c) k =
     counter_get c k +
       (if k \<in> set common_keywords then int (count_list (split content) k) else 0)"
    by (simp add: update_word_counter_def count_words_get)
  show "update_word_counter content c = c"
    if "set (split content) \<inter> set common_keywords = {}"
    using that by (simp add: update_word_counter_def count_words_no_keyword)
  show "update_word_counter [] c = c"
    by (simp add: update_word_counter_def split_Nil)
  have "counter_get (update_word_counter (ascii ''BTC to the moon BTC'') c) (ascii ''BTC'') =
     counter_get c (ascii ''BTC'') +
       (if ascii ''BTC'' \<in> set common_keywords
        then int (count_list (split (ascii ''BTC to the moon BTC'')) (ascii ''BTC'')) else 0)"
    by (simp only: update_word_counter_def count_words_get)
  moreover have "count_list (split (ascii ''BTC to the moon BTC'')) (ascii ''BTC'') = 2"
    by (simp add: split_def ascii_def is_space_def)
  moreover have "ascii ''BTC'' \<in> set common_keywords"
    by (simp add: common_keywords_def ascii_def)
  ultimately show "counter_get (update_word_counter (ascii ''BTC to the moon BTC'') c)
      (ascii ''BTC'') = counter_get c (ascii ''BTC'') + 2"
    by simp
qed

theorem update_word_counter_counts_witness:
  "counter_get (update_word_counter (ascii ''ETH and ETH beat BTC'') [(ascii ''ETH'', 4)])
      (ascii ''ETH'') = 6 \<and>
   set (split (ascii ''to the moon'')) \<inter> set common_keywords = {} \<and>
   update_word_counter (ascii ''to the moon'') [(ascii ''ETH'', 4)] = [(ascii ''ETH'', 4)] \<and>
   update_word_counter [] [(ascii ''ETH'', 4)] = [(ascii ''ETH'', 4)]"
proof -
  have s1: "count_list (split (ascii ''ETH and ETH beat BTC'')) (ascii ''ETH'') = 2"
    by (simp add: split_def ascii_def is_space_def)
  have k: "ascii ''ETH'' \<in> set common_keywords"
    by (simp add: common_keywords_def ascii_def)
  have g: "counter_get [(ascii ''ETH'', 4)] (ascii ''ETH'') = 4"
    by simp
  have h: "set (split (ascii ''to the moon'')) \<inter> set common_keywords = {}"
    by (simp add: split_def ascii_def is_space_def common_keywords_def)
  have c1: "counter_get (update_word_counter (ascii ''ETH and ETH beat BTC'') [(ascii ''ETH'', 4)])
      (ascii ''ETH'') = 6"
    using update_word_counter_counts
      [of "ascii ''ETH and ETH beat BTC''" "[(ascii ''ETH'', 4)]" "ascii ''ETH''", THEN conjunct1]
    by (simp only: s1 k g if_True)
  show ?thesis
    using h c1 update_word_counter_counts
      [of "ascii ''to the moon''" "[(ascii ''ETH'', 4)]" "ascii ''ETH''"]
    by simp
qed

text \<open>
  Claim C10. In every state reachable through \<^verbatim>\<open>handle_message\<close> and \<^verbatim>\<open>send_summary\<close>,
  every count stored in the counter is strictly positive, and the counter is empty
  whenever the list of messages is.
\<close>

theorem reachable_counter_invariant:
  assumes "reachable ua cfg st"
  shows "(\<forall>(k, v) \<in> set (word_counter st). 0 < v) \<and>
         (messages st = [] \<longrightarrow> word_counter st = [])"
  using accumulators_ok_reachable [OF assms]
  by (simp add: accumulators_ok_def positive_counts_def)

theorem reachable_counter_invariant_witness:
  "reachable ascii_only sample_config sample_state \<and>
   (ascii ''BTC'', 1) \<in> set (word_counter sample_state) \<and>
   (0::int) < 1 \<and> messages sample_state \<noteq> []"
proof -
  have m: "(ascii ''BTC'', 1) \<in> set (word_counter sample_state)"
    by (simp add: sample_state_def)
  have "\<forall>(k, v) \<in> set (word_counter sample_state). 0 < v"
    using reachable_counter_invariant [OF reachable_sample_state] by (rule conjunct1)
  with m have "(0::int) < 1"
    by blast
  with m reachable_sample_state show ?thesis
    by (simp add: sample_state_def)
qed

section \<open>The extractor and the title\<close>

lemma extract_None_iff:
  "extract_tweet_info ua inp = None \<longleftrightarrow> \<not> matches_pattern ua inp"
  unfolding extract_tweet_info_def re_search_None_iff [symmetric]
  by (cases "re_search ua inp") (simp_all split: prod.splits)

text \<open>
  Claim C7. For \<^verbatim>\<open>"Bitcoin is pumping @cryptoguy - https://x.com/abc"\<close> the extractor
  returns the display line made of the description, an em dash, the handle, the link
  sign and the URL in parentheses, with the raw content \<^verbatim>\<open>"Bitcoin is pumping"\<close>; and for
  every string that no part of matches the pattern, it returns nothing.
\<close>

theorem extract_tweet_info_literal_and_miss:
  "extract_tweet_info ua (ascii ''Bitcoin is pumping @cryptoguy - https://x.com/abc'') =
     Some (ascii ''Bitcoin is pumping'' @ [32, 8212, 32] @ ascii ''@cryptoguy'' @
             [32, 128279, 32, 40] @ ascii ''https://x.com/abc'' @ [41],
           ascii ''Bitcoin is pumping'') \<and>
   (\<not> matches_pattern ua inp \<longrightarrow> extract_tweet_info ua inp = None)"
proof
  show "extract_tweet_info ua (ascii ''Bitcoin is pumping @cryptoguy - https://x.com/abc'') =
     Some (ascii ''Bitcoin is pumping'' @ [32, 8212, 32] @ ascii ''@cryptoguy'' @
             [32, 128279, 32, 40] @ ascii ''https://x.com/abc'' @ [41],
           ascii ''Bitcoin is pumping'')"
    by (simp add: eval_defs)
  show "\<not> matches_pattern ua inp \<longrightarrow> extract_tweet_info ua inp = None"
    by (simp add: extract_None_iff)
qed

theorem extract_tweet_info_literal_and_miss_witness:
  "\<not> matches_pattern ascii_only (ascii ''gm @everyone - see you'') \<and>
   extract_tweet_info ascii_only (ascii ''gm @everyone - see you'') = None"
proof -
  have "re_search ascii_only (ascii ''gm @everyone - see you'') = None"
    by (simp add: eval_defs)
  then have h: "\<not> matches_pattern ascii_only (ascii ''gm @everyone - see you'')"
    by (simp add: re_search_None_iff)
  show ?thesis
    using h extract_tweet_info_literal_and_miss
      [of ascii_only "ascii ''gm @everyone - see you''", THEN conjunct2]
    by simp
qed

lemma split_from_run:
  "list_all (\<lambda>c. \<not> is_space c) w \<Longrightarrow> split_from cur (w @ r) = split_from (cur @ w) r"
  by (induction w arbitrary: cur) simp_all

lemma split_from_tokens:
  "list_all (\<lambda>c. \<not> is_space c) cur \<Longrightarrow> list_all is_token (split_from cur s)"
  by (induction s arbitrary: cur) (simp_all add: is_token_def)

lemma split_tokens: "list_all is_token (split s)"
  by (simp add: split_def split_from_tokens)

lemma is_space_32: "is_space 32"
  by (simp add: is_space_def)

lemma split_join:
  "list_all is_token ws \<Longrightarrow> split (join [32] ws) = ws"
proof (induction "[32::nat]" ws rule: join.induct)
  case 1
  then show ?case by (simp add: split_def)
next
  case (2 x)
  then have "split_from [] (x @ []) = split_from ([] @ x) []"
    by (intro split_from_run) (simp add: is_token_def)
  with 2 show ?case
    by (simp add: split_def is_token_def)
next
  case (3 x y ys)
  from "3.prems" have r: "list_all is_token (y # ys)"
    by simp
  from "3.prems" have x: "x \<noteq> []" "list_all (\<lambda>c. \<not> is_space c) x"
    by (simp_all add: is_token_def)
  have "split (join [32] (x # y # ys)) = split_from [] (x @ 32 # join [32] (y # ys))"
    by (simp add: split_def)
  also have "\<dots> = split_from ([] @ x) (32 # join [32] (y # ys))"
    using x(2) by (rule split_from_run)
  also have "\<dots> = x # split (join [32] (y # ys))"
    using x(1) by (simp add: is_space_32 split_def)
  also have "\<dots> = x # y # ys"
    using "3.hyps" [OF r] by simp
  finally show ?case .
qed

lemma list_all_take: "list_all P xs \<Longrightarrow> list_all P (take n xs)"
  by (simp add: list_all_iff) (meson in_set_takeD)

lemma split_summarize_content: "split (summarize_content d) = take 10 (split d)"
  unfolding summarize_content_def
  by (intro split_join list_all_take split_tokens)

text \<open>
  Claim C8 says that a description of at most 10 tokens is its own title. The matched
  description \<^verbatim>\<open>"a  b"\<close> (two spaces) has two tokens, and its title is \<^verbatim>\<open>"a b"\<close>:
  \<^verbatim>\<open>split()\<close> and \<^verbatim>\<open>" ".join\<close> collapse every run of whitespace to one space.
\<close>

theorem title_of_short_description_counterexample:
  "extract_tweet_info ascii_only (ascii ''a  b @h - http://x'') =
     Some (ascii ''a b'' @ [32, 8212, 32] @ ascii ''@h'' @ [32, 128279, 32, 40] @
             ascii ''http://x'' @ [41],
           ascii ''a  b'') \<and>
   length (split (ascii ''a  b'')) = 2 \<and>
   summarize_content (ascii ''a  b'') = ascii ''a b'' \<and>
   summarize_content (ascii ''a  b'') \<noteq> ascii ''a  b''"
  by (simp add: eval_defs)

text \<open>
  Claim C8, amended. The title is the first 10 whitespace-separated tokens of the
  description joined by single spaces, all of them when there are at most 10: the tokens
  of the title are exactly those, so a description of more than 10 tokens gives a title
  of 10. A description that is itself at most 10 tokens joined by single spaces is its
  own title.
\<close>

theorem summarize_content_title:
  "summarize_content d = join [32] (take 10 (split d)) \<and>
   split (summarize_content d) = take 10 (split d) \<and>
   (10 < length (split d) \<longrightarrow> length (split (summarize_content d)) = 10) \<and>
   (length ws \<le> 10 \<and> list_all is_token ws \<longrightarrow>
      summarize_content (join [32] ws) = join [32] ws)"
proof (intro conjI impI)
  show "summarize_content d = join [32] (take 10 (split d))"
    by (simp add: summarize_content_def)
  show "split (summarize_content d) = take 10 (split d)"
    by (rule split_summarize_content)
  show "length (split (summarize_content d)) = 10" if "10 < length (split d)"
    using that by (simp add: split_summarize_content)
  show "summarize_content (join [32] ws) = join [32] ws"
    if "length ws \<le> 10 \<and> list_all is_token ws"
    using that by (simp add: summarize_content_def split_join)
qed

theorem summarize_content_title_witness:
  "length (split (ascii ''a b c d e f g h i j k l m n o'')) = 15 \<and>
   split (summarize_content (ascii ''a b c d e f g h i j k l m n o'')) =
     [[97], [98], [99], [100], [101], [102], [103], [104], [105], [106]] \<and>
   summarize_content (ascii ''a b c d e f g h i j k l m n o'') = ascii ''a b c d e f g h i j'' \<and>
   length [ascii ''Bitcoin'', ascii ''is'', ascii ''pumping''] \<le> 10 \<and>
   summarize_content (ascii ''Bitcoin is pumping'') = ascii ''Bitcoin is pumping''"
proof -
  have s: "split (ascii ''a b c d e f g h i j k l m n o'') =
      [[97], [98], [99], [100], [101], [102], [103], [104], [105], [106], [107], [108], [109],
       [110], [111]]"
    by (simp add: split_def ascii_def is_space_def)
  have h1: "10 < length (split (ascii ''a b c d e f g h i j k l m n o''))"
    by (simp add: s)
  have t: "list_all is_token [ascii ''Bitcoin'', ascii ''is'', ascii ''pumping'']"
    by (simp add: is_token_def ascii_def is_space_def)
  have h2: "length [ascii ''Bitcoin'', ascii ''is'', ascii ''pumping''] \<le> 10 \<and>
      list_all is_token [ascii ''Bitcoin'', ascii ''is'', ascii ''pumping'']"
    using t by simp
  have j: "join [32] [ascii ''Bitcoin'', ascii ''is'', ascii ''pumping''] =
      ascii ''Bitcoin is pumping''"
    by (simp add: ascii_def)
  note thm1 = summarize_content_title
    [of "ascii ''a b c d e f g h i j k l m n o''"
        "[ascii ''Bitcoin'', ascii ''is'', ascii ''pumping'']"]
  have a: "summarize_content (ascii ''a b c d e f g h i j k l m n o'') =
      join [32] (take 10 (split (ascii ''a b c d e f g h i j k l m n o'')))"
    by (rule thm1 [THEN conjunct1])
  have b: "split (summarize_content (ascii ''a b c d e f g h i j k l m n o'')) =
      take 10 (split (ascii ''a b c d e f g h i j k l m n o''))"
    by (rule thm1 [THEN conjunct2, THEN conjunct1])
  have c: "summarize_content (join [32] [ascii ''Bitcoin'', ascii ''is'', ascii ''pumping''])
      = join [32] [ascii ''Bitcoin'', ascii ''is'', ascii ''pumping'']"
    by (rule thm1 [THEN conjunct2, THEN conjunct2, THEN conjunct2, rule_format, OF h2])
  have a': "summarize_content (ascii ''a b c d e f g h i j k l m n o'') =
      ascii ''a b c d e f g h i j''"
    unfolding a s by (simp add: ascii_def)
  have b': "split (summarize_content (ascii ''a b c d e f g h i j k l m n o'')) =
     [[97], [98], [99], [100], [101], [102], [103], [104], [105], [106]]"
    unfolding b s by simp
  show ?thesis
  proof (intro conjI)
    show "length (split (ascii ''a b c d e f g h i j k l m n o'')) = 15"
      by (simp add: s)
    show "split (summarize_content (ascii ''a b c d e f g h i j k l m n o'')) =
        [[97], [98], [99], [100], [101], [102], [103], [104], [105], [106]]"
      by (rule b')
    show "summarize_content (ascii ''a b c d e f g h i j k l m n o'') =
        ascii ''a b c d e f g h i j''"
      by (rule a')
    show "length [ascii ''Bitcoin'', ascii ''is'', ascii ''pumping''] \<le> 10"
      by simp
    show "summarize_content (ascii ''Bitcoin is pumping'') = ascii ''Bitcoin is pumping''"
      using c unfolding j .
  qed
qed

section \<open>The three most common keywords\<close>











section \<open>The text given to the summarizer\<close>

lemma extract_summary_nonempty:
  "extract_tweet_info ua inp = Some (summary, content) \<Longrightarrow> summary \<noteq> []"
  by (auto simp: extract_tweet_info_def split: option.splits prod.splits)

lemma handle_message_messages:
  "messages (handle_message ua cfg u st) = messages st @ map fst (extracted ua cfg [u])"
proof (cases "extract_tweet_info ua (message_text u)")
  case None
  then show ?thesis by (simp add: handle_message_def)
next
  case (Some r)
  obtain summary content where r: "r = (summary, content)"
    by (cases r)
  with Some have "summary \<noteq> []"
    by (simp add: extract_summary_nonempty)
  with Some r show ?thesis
    by (simp add: handle_message_def)
qed

lemma extracted_append:
  "extracted ua cfg (us @ vs) = extracted ua cfg us @ extracted ua cfg vs"
  by (induction us) simp_all

lemma run_messages_messages:
  "messages (run_messages ua cfg us st) = messages st @ map fst (extracted ua cfg us)"
proof (induction us arbitrary: st)
  case Nil
  then show ?case by (simp add: run_messages_def)
next
  case (Cons u us)
  have "messages (run_messages ua cfg (u # us) st) =
      messages (run_messages ua cfg us (handle_message ua cfg u st))"
    by (simp add: run_messages_def)
  also have "\<dots> = messages (handle_message ua cfg u st) @ map fst (extracted ua cfg us)"
    by (rule Cons.IH)
  also have "\<dots> = messages st @ map fst (extracted ua cfg (u # us))"
    using extracted_append [of ua cfg "[u]" us] by (simp add: handle_message_messages)
  finally show ?case .
qed

lemma send_summary_prompts:
  "messages st \<noteq> [] \<Longrightarrow>
   summarizer_prompts (snd (snd (send_summary cfg today api ctx st))) =
     [user_prompt_prefix @ summary_text (messages st)]"
  by (simp add: send_summary_def Let_def request_for_def split: option.splits sum.splits)

text \<open>
  Claim C4 says that the summarizer receives the raw contents joined by newlines. After
  the one message \<^verbatim>\<open>"Bitcoin is pumping @cryptoguy - https://x.com/abc"\<close> the raw content
  is \<^verbatim>\<open>"Bitcoin is pumping"\<close>, and the text put into the request is the numbered display
  line, with its handle and link.
\<close>

theorem summarizer_prompt_counterexample:
  "map snd (extracted ascii_only sample_config [sample_update]) = [ascii ''Bitcoin is pumping''] \<and>
   summarizer_prompts (snd (snd (send_summary sample_config sample_day working_api
      (Some working_bot) (run_messages ascii_only sample_config [sample_update] initial_state))))
     = [user_prompt_prefix @ ascii ''1. Bitcoin is pumping'' @ [32, 8212, 32] @
          ascii ''@cryptoguy'' @ [32, 128279, 32, 40] @ ascii ''https://x.com/abc'' @ [41]] \<and>
   ascii ''1. Bitcoin is pumping'' @ [32, 8212, 32] @
          ascii ''@cryptoguy'' @ [32, 128279, 32, 40] @ ascii ''https://x.com/abc'' @ [41]
     \<noteq> join [10] (map snd (extracted ascii_only sample_config [sample_update]))"
proof -
  have e: "extract_tweet_info ascii_only
      (ascii ''Bitcoin is pumping @cryptoguy - https://x.com/abc'') =
     Some (ascii ''Bitcoin is pumping'' @ [32, 8212, 32] @ ascii ''@cryptoguy'' @
             [32, 128279, 32, 40] @ ascii ''https://x.com/abc'' @ [41],
           ascii ''Bitcoin is pumping'')"
    by (simp add: eval_defs)
  have x: "extracted ascii_only sample_config [sample_update] =
      [(ascii ''Bitcoin is pumping'' @ [32, 8212, 32] @ ascii ''@cryptoguy'' @
             [32, 128279, 32, 40] @ ascii ''https://x.com/abc'' @ [41],
           ascii ''Bitcoin is pumping'')]"
    by (simp add: sample_update_def sample_config_def e)
  have m: "messages (run_messages ascii_only sample_config [sample_update] initial_state) =
      [ascii ''Bitcoin is pumping'' @ [32, 8212, 32] @ ascii ''@cryptoguy'' @
             [32, 128279, 32, 40] @ ascii ''https://x.com/abc'' @ [41]]"
    unfolding run_messages_messages x by (simp add: initial_state_def)
  have t: "summary_text [ascii ''Bitcoin is pumping'' @ [32, 8212, 32] @ ascii ''@cryptoguy'' @
             [32, 128279, 32, 40] @ ascii ''https://x.com/abc'' @ [41]] =
      ascii ''1. Bitcoin is pumping'' @ [32, 8212, 32] @
          ascii ''@cryptoguy'' @ [32, 128279, 32, 40] @ ascii ''https://x.com/abc'' @ [41]"
    by (simp add: summary_text_def enumerate_eq_zip str_int_def str_nat.simps ascii_def)
  have p: "summarizer_prompts (snd (snd (send_summary sample_config sample_day working_api
      (Some working_bot) (run_messages ascii_only sample_config [sample_update] initial_state))))
     = [user_prompt_prefix @ ascii ''1. Bitcoin is pumping'' @ [32, 8212, 32] @
          ascii ''@cryptoguy'' @ [32, 128279, 32, 40] @ ascii ''https://x.com/abc'' @ [41]]"
  proof -
    have "messages (run_messages ascii_only sample_config [sample_update] initial_state) \<noteq> []"
      unfolding m by simp
    from send_summary_prompts [OF this] show ?thesis
      unfolding m t .
  qed
  show ?thesis
    unfolding p x by (simp add: ascii_def)
qed

text \<open>
  Claim C4, amended. When a period that starts with no stored message has at least one
  extracted message, a report run makes one request to the summarizer, and its text is
  the fixed instruction followed by the display lines of the period, in arrival order,
  each numbered from 1 and joined by newlines.
\<close>

theorem summarizer_prompt_is_numbered_digest:
  assumes "messages st = []" and "extracted ua cfg us \<noteq> []"
  shows "summarizer_prompts
           (snd (snd (send_summary cfg today api ctx (run_messages ua cfg us st)))) =
         [user_prompt_prefix @
            join [10] (map (\<lambda>(i, line). str_int (int i + 1) @ ascii ''. '' @ line)
                         (enumerate 0 (map fst (extracted ua cfg us))))]"
proof -
  have m: "messages (run_messages ua cfg us st) = map fst (extracted ua cfg us)"
    using assms(1) by (simp add: run_messages_messages)
  with assms(2) have "messages (run_messages ua cfg us st) \<noteq> []"
    by simp
  from send_summary_prompts [OF this] show ?thesis
    by (simp add: m summary_text_def)
qed

theorem summarizer_prompt_is_numbered_digest_witness:
  "messages initial_state = [] \<and>
   extracted ascii_only sample_config [sample_update] \<noteq> [] \<and>
   summarizer_prompts (snd (snd (send_summary sample_config sample_day failing_api None
      (run_messages ascii_only sample_config [sample_update] initial_state))))
     = [user_prompt_prefix @ ascii ''1. Bitcoin is pumping'' @ [32, 8212, 32] @
          ascii ''@cryptoguy'' @ [32, 128279, 32, 40] @ ascii ''https://x.com/abc'' @ [41]]"
proof -
  have e: "extract_tweet_info ascii_only
      (ascii ''Bitcoin is pumping @cryptoguy - https://x.com/abc'') =
     Some (ascii ''Bitcoin is pumping'' @ [32, 8212, 32] @ ascii ''@cryptoguy'' @
             [32, 128279, 32, 40] @ ascii ''https://x.com/abc'' @ [41],
           ascii ''Bitcoin is pumping'')"
    by (simp add: eval_defs)
  have x: "extracted ascii_only sample_config [sample_update] =
      [(ascii ''Bitcoin is pumping'' @ [32, 8212, 32] @ ascii ''@cryptoguy'' @
             [32, 128279, 32, 40] @ ascii ''https://x.com/abc'' @ [41],
           ascii ''Bitcoin is pumping'')]"
    by (simp add: sample_update_def sample_config_def e)
  have h1: "messages initial_state = []"
    by (simp add: initial_state_def)
  have h2: "extracted ascii_only sample_config [sample_update] \<noteq> []"
    unfolding x by simp
  have "summarizer_prompts (snd (snd (send_summary sample_config sample_day failing_api None
      (run_messages ascii_only sample_config [sample_update] initial_state)))) =
         [user_prompt_prefix @
            join [10] (map (\<lambda>(i, line). str_int (int i + 1) @ ascii ''. '' @ line)
               (enumerate 0 (map fst (extracted ascii_only sample_config [sample_update]))))]"
    by (rule summarizer_prompt_is_numbered_digest [OF h1 h2])
  also have "\<dots> = [user_prompt_prefix @ ascii ''1. Bitcoin is pumping'' @ [32, 8212, 32] @
          ascii ''@cryptoguy'' @ [32, 128279, 32, 40] @ ascii ''https://x.com/abc'' @ [41]]"
    unfolding x by (simp add: enumerate_eq_zip str_int_def str_nat.simps ascii_def)
  finally show ?thesis
    using h1 h2 by simp
qed

end
